theory Spec2Isabelle
  imports Complex_Main "HOL-Library.Multiset"
begin

section \<open>Reaction dynamics simulator: a shallow embedding of Code.py\<close>

text \<open>
  The script reads reaction records \<open>(reaction_id, description)\<close>, parses the descriptions
  (\<open>"A + B <=> C"\<close>), collects the species names, and hands a mass-action right-hand side to
  an ODE solver. Concentrations are floating-point numbers in the source; here they are
  \<^typ>\<open>real\<close>, so the arithmetic below is the exact arithmetic that the floating-point
  operations approximate. Strings are \<^typ>\<open>string\<close>; the descriptions of the reaction
  database are ASCII text.
\<close>

subsection \<open>Exceptions\<close>

datatype py_error = ValueError | IndexError | KeyError | SolverError

subsection \<open>\<open>str.split(sep)\<close> and \<open>str.strip()\<close>\<close>

text \<open>
  \<open>s.split(sep)\<close> with a separator: the occurrences of \<open>sep\<close> are found from left to right,
  without overlap, and the pieces between them are returned; there is always at least one
  piece. The source calls it with the literals \<open>"<=>"\<close> and \<open>" + "\<close> only (Python raises
  ValueError on an empty separator; the model then never finds a match).
\<close>

function py_split :: "string \<Rightarrow> string \<Rightarrow> string list" where
  "py_split sep [] = [[]]"
| "py_split sep (c # cs) =
     (if sep \<noteq> [] \<and> take (length sep) (c # cs) = sep
      then [] # py_split sep (drop (length sep) (c # cs))
      else (case py_split sep cs of
              [] \<Rightarrow> [[c]]
            | p # ps \<Rightarrow> (c # p) # ps))"
  by pat_completeness auto
termination
  by (relation "measure (\<lambda>(sep, s). length s)") auto

text \<open>The inverse, \<open>sep.join(parts)\<close>, used to state what a split is.\<close>

fun py_join :: "string \<Rightarrow> string list \<Rightarrow> string" where
  "py_join sep [] = []"
| "py_join sep [p] = p"
| "py_join sep (p # q # ps) = p @ sep @ py_join sep (q # ps)"

text \<open>
  \<open>s.strip()\<close> removes leading and trailing whitespace: for ASCII text these are the
  characters space, \<open>\t \n \v \f \r\<close> and the separators \<open>0x1c .. 0x1f\<close>.
\<close>

definition is_space :: "char \<Rightarrow> bool" where
  "is_space c \<longleftrightarrow>
     c \<in> set [CHR '' '', CHR 0x09, CHR 0x0A, CHR 0x0B, CHR 0x0C, CHR 0x0D,
              CHR 0x1C, CHR 0x1D, CHR 0x1E, CHR 0x1F]"

definition strip :: "string \<Rightarrow> string" where
  "strip s = rev (dropWhile is_space (rev (dropWhile is_space s)))"

text \<open>The number of places at which \<open>sep\<close> occurs in a string.\<close>

fun occurrences :: "string \<Rightarrow> string \<Rightarrow> nat" where
  "occurrences sep [] = 0"
| "occurrences sep (c # cs) =
     (if take (length sep) (c # cs) = sep then 1 else 0) + occurrences sep cs"

text \<open>\<open>sep in s\<close>: the separator occurs somewhere in the string.\<close>

definition contains :: "string \<Rightarrow> string \<Rightarrow> bool" where
  "contains sep s \<longleftrightarrow> 0 < occurrences sep s"

subsection \<open>Reactions and their parse\<close>

type_synonym reaction = "string \<times> string"

text \<open>
  Lines 60-62 and 93-95: \<open>substrates, products = description.split("<=>")\<close> unpacks exactly
  two sides (ValueError otherwise, caught by the caller's \<open>except ValueError\<close>), and each side
  is split on \<open>" + "\<close>. The terms are stripped where they are used.
\<close>

definition split_sides :: "string \<Rightarrow> py_error + (string list \<times> string list)" where
  "split_sides description =
     (case py_split ''<=>'' description of
        [substrates, products] \<Rightarrow>
          Inr (py_split '' + '' substrates, py_split '' + '' products)
      | _ \<Rightarrow> Inl ValueError)"

definition parse_reaction :: "string \<Rightarrow> py_error + (string list \<times> string list)" where
  "parse_reaction description =
     (case split_sides description of
        Inl e \<Rightarrow> Inl e
      | Inr (substrates, products) \<Rightarrow> Inr (map strip substrates, map strip products))"

subsection \<open>The reaction network (\<open>build_reaction_network\<close>)\<close>

text \<open>
  The directed graph is used through \<open>add_edge\<close> only, so it is the finite map from an edge
  \<open>(u, v)\<close> to its \<open>reaction\<close> attribute; adding an edge that exists overwrites the attribute.
  The printed lines are returned beside the graph.
\<close>

type_synonym graph = "(string \<times> string) \<rightharpoonup> string"

definition add_edges :: "graph \<Rightarrow> string \<Rightarrow> string list \<Rightarrow> string list \<Rightarrow> graph" where
  "add_edges G reaction_id substrates products =
     foldl (\<lambda>G s. foldl (\<lambda>G p. G((strip s, strip p) \<mapsto> reaction_id)) G products) G substrates"

fun build_loop :: "graph \<times> string list \<Rightarrow> reaction list \<Rightarrow> graph \<times> string list" where
  "build_loop (G, out) [] = (G, out)"
| "build_loop (G, out) ((reaction_id, description) # rs) =
     (case split_sides description of
        Inr (substrates, products) \<Rightarrow>
          build_loop (add_edges G reaction_id substrates products, out) rs
      | Inl e \<Rightarrow>
          build_loop (G, out @ [''Skipping malformed reaction description: '' @ description]) rs)"

definition build_reaction_network :: "reaction list \<Rightarrow> graph \<times> string list" where
  "build_reaction_network reactions = build_loop (Map.empty, []) reactions"

subsection \<open>The species list (lines 79-83)\<close>

text \<open>
  The list comprehension indexes the split with \<open>[0]\<close> and \<open>[1]\<close>: a description without a
  separator has one piece only and \<open>[1]\<close> raises IndexError, which nothing catches; pieces
  after the second are ignored.
\<close>

fun species_terms :: "reaction list \<Rightarrow> py_error + string list" where
  "species_terms [] = Inr []"
| "species_terms ((reaction_id, description) # rs) =
     (case py_split ''<=>'' description of
        l # r # _ \<Rightarrow>
          (case species_terms rs of
             Inl e \<Rightarrow> Inl e
           | Inr ns \<Rightarrow>
               Inr (map strip (py_split '' + '' l) @ map strip (py_split '' + '' r) @ ns))
      | _ \<Rightarrow> Inl IndexError)"

text \<open>
  \<open>list(set(names))\<close> lists every element of the set once, in the iteration order of the
  hash set. That order is not a function of the program text (string hashes differ from
  process to process), so it is a parameter \<open>list_set\<close> of the model, and
  \<open>set_listing names (list_set names)\<close> says what every such listing satisfies.
\<close>

definition set_listing :: "string list \<Rightarrow> string list \<Rightarrow> bool" where
  "set_listing names listed \<longleftrightarrow> distinct listed \<and> set listed = set names"

definition parse_species ::
  "(string list \<Rightarrow> string list) \<Rightarrow> reaction list \<Rightarrow> py_error + string list" where
  "parse_species list_set reactions =
     (case species_terms reactions of
        Inl e \<Rightarrow> Inl e
      | Inr names \<Rightarrow> Inr (list_set names))"

text \<open>
  The registry as the specification words it: go through the names in input order and give
  the next unused position to each name not seen before.
\<close>

fun first_seen :: "string list \<Rightarrow> string list \<Rightarrow> string list" where
  "first_seen registry [] = registry"
| "first_seen registry (n # ns) =
     first_seen (if n \<in> set registry then registry else registry @ [n]) ns"

text \<open>\<open>species.index(x)\<close> for an \<open>x\<close> that is in the list: the first position holding it.\<close>

fun py_index :: "string list \<Rightarrow> string \<Rightarrow> nat" where
  "py_index [] x = 0"
| "py_index (y # ys) x = (if y = x then 0 else Suc (py_index ys x))"

subsection \<open>The right-hand side (\<open>reaction_kinetics\<close>)\<close>

text \<open>
  Lines 96-97: the indices of the terms that are species. Lines 99-100: the fluxes, a
  product over the indices below \<open>len(y)\<close> (\<open>np.prod\<close> of an empty list is 1). Lines 101-106:
  the two update loops, each guarded by \<open>idx < len(y)\<close>; \<open>dydt\<close> has the length of \<open>y\<close>.
\<close>

definition indices_of :: "string list \<Rightarrow> string list \<Rightarrow> nat list" where
  "indices_of species terms =
     map (\<lambda>s. py_index species (strip s)) (filter (\<lambda>s. strip s \<in> set species) terms)"

definition flux :: "real list \<Rightarrow> nat list \<Rightarrow> real" where
  "flux y idxs = prod_list (map (\<lambda>idx. y ! idx) (filter (\<lambda>idx. idx < length y) idxs))"

definition subtract_at :: "real list \<Rightarrow> real \<Rightarrow> real list \<Rightarrow> nat list \<Rightarrow> real list" where
  "subtract_at y net dydt idxs =
     foldl (\<lambda>d idx. if idx < length y then d[idx := d ! idx - net] else d) dydt idxs"

definition add_at :: "real list \<Rightarrow> real \<Rightarrow> real list \<Rightarrow> nat list \<Rightarrow> real list" where
  "add_at y net dydt idxs =
     foldl (\<lambda>d idx. if idx < length y then d[idx := d ! idx + net] else d) dydt idxs"

definition apply_reaction ::
  "real \<Rightarrow> nat list \<Rightarrow> nat list \<Rightarrow> real list \<Rightarrow> real list \<Rightarrow> real list" where
  "apply_reaction k_eq substrate_indices product_indices y dydt =
     (let forward_flux = flux y substrate_indices;
          reverse_flux = k_eq * flux y product_indices
      in add_at y (forward_flux - reverse_flux)
           (subtract_at y (forward_flux - reverse_flux) dydt substrate_indices)
           product_indices)"

fun kinetics_loop ::
  "string list \<Rightarrow> (string \<rightharpoonup> real) \<Rightarrow> real list \<Rightarrow> real list \<times> string list \<Rightarrow>
   reaction list \<Rightarrow> py_error + real list \<times> string list" where
  "kinetics_loop species equilibrium_constants y (dydt, out) [] = Inr (dydt, out)"
| "kinetics_loop species equilibrium_constants y (dydt, out) ((reaction_id, description) # rs) =
     (case split_sides description of
        Inl e \<Rightarrow>
          kinetics_loop species equilibrium_constants y
            (dydt, out @ [''Skipping malformed reaction: '' @ description]) rs
      | Inr (substrates, products) \<Rightarrow>
          (case equilibrium_constants reaction_id of
             None \<Rightarrow> Inl KeyError
           | Some k_eq \<Rightarrow>
               kinetics_loop species equilibrium_constants y
                 (apply_reaction k_eq (indices_of species substrates)
                    (indices_of species products) y dydt, out) rs))"

definition reaction_kinetics ::
  "string list \<Rightarrow> (string \<rightharpoonup> real) \<Rightarrow> reaction list \<Rightarrow> real \<Rightarrow> real list \<Rightarrow>
   py_error + real list \<times> string list" where
  "reaction_kinetics species equilibrium_constants reactions t y =
     kinetics_loop species equilibrium_constants y (replicate (length y) 0, []) reactions"

subsection \<open>The simulation (\<open>simulate_reaction_dynamics\<close>)\<close>

text \<open>
  Line 76: one draw of the random source per reaction, stored under the reaction's id (a
  later reaction with the same id overwrites the entry). The draws are a parameter.
\<close>

definition equilibrium_constants :: "(nat \<Rightarrow> real) \<Rightarrow> reaction list \<Rightarrow> (string \<rightharpoonup> real)" where
  "equilibrium_constants draw reactions =
     foldl (\<lambda>m (i, reaction). m(fst reaction \<mapsto> draw i)) Map.empty
       (zip [0..<length reactions] reactions)"

text \<open>
  Lines 85-87 and 111: the caller's list is a mutable object. \<open>initial_concentrations += ...\<close>
  extends that object in place; the slice \<open>initial_concentrations[:num_species]\<close> is a new
  list. The heap maps a reference to the list object it names.
\<close>

type_synonym ref = nat
type_synonym heap = "ref \<Rightarrow> real list"

definition pad_initial :: "heap \<Rightarrow> ref \<Rightarrow> nat \<Rightarrow> heap" where
  "pad_initial h initial_concentrations num_species =
     (if length (h initial_concentrations) < num_species
      then h(initial_concentrations :=
               h initial_concentrations @
               replicate (num_species - length (h initial_concentrations)) 0)
      else h)"

definition integrator_input :: "heap \<Rightarrow> ref \<Rightarrow> nat \<Rightarrow> real list" where
  "integrator_input h initial_concentrations num_species =
     take num_species (pad_initial h initial_concentrations num_species initial_concentrations)"

definition linspace :: "real \<Rightarrow> real \<Rightarrow> nat \<Rightarrow> real list" where
  "linspace a b n = map (\<lambda>i. a + real i * ((b - a) / real (n - 1))) [0..<n]"

text \<open>
  \<open>solve_ivp\<close> is the library's integrator: a parameter that takes the right-hand side, the
  time span, the initial vector and the sample times, and returns the times and the
  solution array (one row per species) or fails.
\<close>

type_synonym rhs = "real \<Rightarrow> real list \<Rightarrow> py_error + real list \<times> string list"
type_synonym ode_solver =
  "rhs \<Rightarrow> real \<times> real \<Rightarrow> real list \<Rightarrow> real list \<Rightarrow> py_error + real list \<times> real list list"

definition simulate_reaction_dynamics ::
  "(string list \<Rightarrow> string list) \<Rightarrow> (nat \<Rightarrow> real) \<Rightarrow> ode_solver \<Rightarrow>
   reaction list \<Rightarrow> ref \<Rightarrow> real \<times> real \<Rightarrow> heap \<Rightarrow>
   (py_error + real list \<times> real list list \<times> string list) \<times> heap" where
  "simulate_reaction_dynamics list_set draw solve_ivp reactions initial_concentrations time_span h =
     (case parse_species list_set reactions of
        Inl e \<Rightarrow> (Inl e, h)
      | Inr species \<Rightarrow>
          (let num_species = length species;
               h' = pad_initial h initial_concentrations num_species
           in (case solve_ivp
                      (reaction_kinetics species (equilibrium_constants draw reactions) reactions)
                      time_span
                      (integrator_input h initial_concentrations num_species)
                      (linspace (fst time_span) (snd time_span) 100) of
                 Inl e \<Rightarrow> (Inl e, h')
               | Inr (t, y) \<Rightarrow> (Inr (t, y, species), h'))))"

subsection \<open>The change summary (\<open>analyze_changes\<close>)\<close>

text \<open>
  \<open>pd.cut(x, bins, labels)\<close> with its defaults (\<open>right=True\<close>, \<open>include_lowest=False\<close>): the
  bins \<open>[b0, b1, ..., bn]\<close> stand for the intervals \<open>(b0, b1], ..., (b(n-1), bn]\<close>; a value in
  the i-th interval gets the i-th label and a value in none of them gets no label (NaN).
  The position is found by a left bisection of the sorted bins, that is, by counting the
  bins below the value. The last bin of the source is \<open>float("inf")\<close>.
\<close>

datatype bound = Fin real | PInf

fun below :: "bound \<Rightarrow> real \<Rightarrow> bool" where
  "below (Fin b) x \<longleftrightarrow> b < x"
| "below PInf x \<longleftrightarrow> False"

definition searchsorted_left :: "bound list \<Rightarrow> real \<Rightarrow> nat" where
  "searchsorted_left bins x = length (takeWhile (\<lambda>b. below b x) bins)"

definition pd_cut :: "bound list \<Rightarrow> 'a list \<Rightarrow> real \<Rightarrow> 'a option" where
  "pd_cut bins labels x =
     (let i = searchsorted_left bins x
      in if i = 0 \<or> i = length bins then None else Some (labels ! (i - 1)))"

datatype magnitude = Minor | Moderate | Major

definition classify :: "real \<Rightarrow> magnitude option" where
  "classify change = pd_cut [Fin 0, Fin (1 / 10), Fin 1, PInf] [Minor, Moderate, Major] \<bar>change\<bar>"

record change_row =
  Species :: string
  Initial_Concentration :: real
  Final_Concentration :: real
  Change :: real
  Magnitude :: "magnitude option"

text \<open>
  \<open>y\<close> is the solution array, one row of samples per species: \<open>y[:, 0]\<close> and \<open>y[:, -1]\<close> are
  the first and the last sample of every row (IndexError when the rows are empty), and the
  data frame needs as many species as rows (ValueError otherwise).
\<close>

definition analyze_changes :: "real list list \<Rightarrow> string list \<Rightarrow> py_error + change_row list" where
  "analyze_changes y species =
     (if [] \<in> set y then Inl IndexError
      else if length species \<noteq> length y then Inl ValueError
      else Inr (map (\<lambda>(sp, row).
                   \<lparr>Species = sp, Initial_Concentration = hd row, Final_Concentration = last row,
                    Change = last row - hd row, Magnitude = classify (last row - hd row)\<rparr>)
                 (zip species y)))"

subsection \<open>Reference definitions, in the words of the specification\<close>

text \<open>
  The terms of one parsed reaction, substrates then products, and the registry in first-seen
  order over all reactions in input order.
\<close>

definition reaction_terms :: "reaction \<Rightarrow> string list" where
  "reaction_terms r =
     (case parse_reaction (snd r) of
        Inl e \<Rightarrow> []
      | Inr (substrates, products) \<Rightarrow> substrates @ products)"

definition first_seen_registry :: "reaction list \<Rightarrow> string list" where
  "first_seen_registry reactions = first_seen [] (concat (map reaction_terms reactions))"

text \<open>
  The net flux of a reaction with substrate indices \<open>S\<close>, product indices \<open>P\<close> and constant
  \<open>k\<close>: the product of \<open>y[i]\<close> over \<open>S\<close> minus \<open>k\<close> times the product of \<open>y[j]\<close> over \<open>P\<close>.
  What one reaction contributes to \<open>dy[i]\<close>: the net flux, added once per occurrence of \<open>i\<close>
  in \<open>P\<close> and subtracted once per occurrence of \<open>i\<close> in \<open>S\<close>; a reaction that does not parse
  contributes nothing.
\<close>

definition net_flux :: "real \<Rightarrow> nat list \<Rightarrow> nat list \<Rightarrow> real list \<Rightarrow> real" where
  "net_flux k S P y = prod_list (map (\<lambda>i. y ! i) S) - k * prod_list (map (\<lambda>j. y ! j) P)"

definition reaction_rate ::
  "string list \<Rightarrow> (string \<rightharpoonup> real) \<Rightarrow> real list \<Rightarrow> nat \<Rightarrow> reaction \<Rightarrow> real" where
  "reaction_rate species constants y i r =
     (case (split_sides (snd r), constants (fst r)) of
        (Inr (substrates, products), Some k) \<Rightarrow>
          (let S = indices_of species substrates; P = indices_of species products
           in real (count_list P i) * net_flux k S P y - real (count_list S i) * net_flux k S P y)
      | _ \<Rightarrow> 0)"

section \<open>Splitting and stripping\<close>

lemma py_split_nonempty: "py_split sep s \<noteq> []"
  by (induction sep s rule: py_split.induct) (auto split: list.splits)

lemma py_split_match:
  "sep \<noteq> [] \<Longrightarrow> take (length sep) (c # cs) = sep \<Longrightarrow>
   py_split sep (c # cs) = [] # py_split sep (drop (length sep) (c # cs))"
  by simp

lemma py_split_nomatch:
  "\<not> (sep \<noteq> [] \<and> take (length sep) (c # cs) = sep) \<Longrightarrow>
   py_split sep (c # cs) = (c # hd (py_split sep cs)) # tl (py_split sep cs)"
  using py_split_nonempty [of sep cs] by (cases "py_split sep cs") auto

lemma py_join_Cons: "ps \<noteq> [] \<Longrightarrow> py_join sep (p # ps) = p @ sep @ py_join sep ps"
  by (cases ps) auto

lemma py_join_Cons_hd: "ps \<noteq> [] \<Longrightarrow> py_join sep ((c # hd ps) # tl ps) = c # py_join sep ps"
  by (cases ps; cases "tl ps") auto

lemma py_join_split: "py_join sep (py_split sep s) = s"
proof (induction sep s rule: py_split.induct)
  case (1 sep)
  then show ?case by simp
next
  case (2 sep c cs)
  show ?case
  proof (cases "sep \<noteq> [] \<and> take (length sep) (c # cs) = sep")
    case True
    then have a: "sep \<noteq> []" and b: "take (length sep) (c # cs) = sep" by auto
    have "py_join sep (py_split sep (c # cs)) = sep @ py_join sep (py_split sep (drop (length sep) (c # cs)))"
      by (simp only: py_split_match[OF a b] py_join_Cons[OF py_split_nonempty] append_Nil)
    also have "\<dots> = sep @ drop (length sep) (c # cs)" using 2(1) True by simp
    also have "\<dots> = c # cs" using True by (metis append_take_drop_id)
    finally show ?thesis .
  next
    case False
    have "py_join sep (py_split sep (c # cs)) = c # py_join sep (py_split sep cs)"
      by (simp only: py_split_nomatch[OF False] py_join_Cons_hd[OF py_split_nonempty])
    then show ?thesis using 2(2)[OF False] by simp
  qed
qed

lemma hd_py_split_prefix: "\<exists>rest. s = hd (py_split sep s) @ rest"
proof (cases s)
  case Nil
  then show ?thesis by simp
next
  case (Cons c cs)
  show ?thesis
  proof -
    have "py_join sep (py_split sep s) = s" by (rule py_join_split)
    moreover have "py_split sep s \<noteq> []" by (rule py_split_nonempty)
    ultimately show ?thesis
      by (cases "py_split sep s"; cases "tl (py_split sep s)") auto
  qed
qed

lemma occurrences_piece:
  "sep \<noteq> [] \<Longrightarrow> p \<in> set (py_split sep s) \<Longrightarrow> occurrences sep p = 0"
proof (induction sep s arbitrary: p rule: py_split.induct)
  case (1 sep)
  then show ?case by simp
next
  case (2 sep c cs)
  show ?case
  proof (cases "take (length sep) (c # cs) = sep")
    case True
    with 2(3,4) have "p = [] \<or> p \<in> set (py_split sep (drop (length sep) (c # cs)))"
      by (simp only: py_split_match[OF 2(3) True] set_simps insert_iff)
    then show ?thesis using 2(1)[of p] True 2(3) by auto
  next
    case False
    let ?r = "py_split sep cs"
    have ne: "?r \<noteq> []" by (rule py_split_nonempty)
    from False have eq: "py_split sep (c # cs) = (c # hd ?r) # tl ?r"
      by (simp only: py_split_nomatch simp_thms)
    from 2(4) eq have "p = c # hd ?r \<or> p \<in> set (tl ?r)" by simp
    then show ?thesis
    proof
      assume p: "p = c # hd ?r"
      obtain rest where rest: "cs = hd ?r @ rest" using hd_py_split_prefix by blast
      have "take (length sep) (c # hd ?r) \<noteq> sep"
      proof
        assume a: "take (length sep) (c # hd ?r) = sep"
        have "length (take (length sep) (c # hd ?r)) \<le> length (c # hd ?r)"
          by (simp del: length_take take_Cons' add: length_take)
        then have "length sep \<le> length (c # hd ?r)" using a by simp
        then have "take (length sep) (c # cs) = take (length sep) (c # hd ?r)"
          using rest by (metis append_Cons take_all_iff take_append append_Nil2 diff_is_0_eq take_0)
        with a False show False by simp
      qed
      moreover have "occurrences sep (hd ?r) = 0"
        using 2(2)[of "hd ?r"] False 2(3) ne by simp
      ultimately show ?thesis using p by simp
    next
      assume "p \<in> set (tl ?r)"
      then have "p \<in> set ?r" using ne by (meson list.set_sel(2))
      then show ?thesis using 2(2)[of p] False 2(3) by simp
    qed
  qed
qed

lemma length_split_sep:
  "length (py_split ''<=>'' s) = Suc (occurrences ''<=>'' s)"
proof (induction "''<=>''" s rule: py_split.induct)
  case 1
  then show ?case by simp
next
  case (2 c cs)
  show ?case
  proof (cases "take (length ''<=>'') (c # cs) = ''<=>''")
    case True
    then obtain rest where cs: "c # cs = ''<=>'' @ rest"
      by (metis append_take_drop_id)
    then have "occurrences ''<=>'' (c # cs) = Suc (occurrences ''<=>'' rest)" by simp
    moreover have "drop (length ''<=>'') (c # cs) = rest" using cs by simp
    ultimately show ?thesis using 2(1) True by (simp del: occurrences.simps)
  next
    case False
    then have "py_split ''<=>'' (c # cs) = (c # hd (py_split ''<=>'' cs)) # tl (py_split ''<=>'' cs)"
      by (simp only: py_split_nomatch simp_thms)
    then show ?thesis using 2(2) False py_split_nonempty[of "''<=>''" cs] by simp
  qed
qed

lemma strip_decomposition:
  "\<exists>u v. s = u @ strip s @ v \<and> list_all is_space u \<and> list_all is_space v"
proof -
  let ?m = "dropWhile is_space s"
  have "s = takeWhile is_space s @ ?m" by simp
  moreover have "rev ?m = takeWhile is_space (rev ?m) @ dropWhile is_space (rev ?m)" by simp
  then have "?m = strip s @ rev (takeWhile is_space (rev ?m))"
    unfolding strip_def by (metis rev_append rev_rev_ident)
  moreover have "list_all is_space (takeWhile is_space s)"
    by (simp add: list_all_iff) (meson set_takeWhileD)
  moreover have "list_all is_space (rev (takeWhile is_space (rev ?m)))"
    by (simp add: list_all_iff) (meson set_takeWhileD)
  ultimately show ?thesis by metis
qed

lemma strip_ends:
  assumes "strip s \<noteq> []"
  shows "\<not> is_space (hd (strip s)) \<and> \<not> is_space (last (strip s))"
proof -
  let ?m = "dropWhile is_space s"
  let ?k = "dropWhile is_space (rev ?m)"
  from assms have k: "?k \<noteq> []" by (simp add: strip_def)
  then have "\<not> is_space (hd ?k)" by (rule hd_dropWhile)
  then have l: "\<not> is_space (last (strip s))" using k by (simp add: strip_def last_rev)
  from k have m: "?m \<noteq> []" by (cases "?m") simp_all
  then have hm: "\<not> is_space (hd ?m)" by (rule hd_dropWhile)
  have "rev ?m = takeWhile is_space (rev ?m) @ ?k" by simp
  then have "?m = strip s @ rev (takeWhile is_space (rev ?m))"
    unfolding strip_def by (metis rev_append rev_rev_ident)
  then have "hd ?m = hd (strip s)" using assms by (metis hd_append2)
  with hm l show ?thesis by simp
qed

lemma one_separator_split:
  assumes "occurrences ''<=>'' d = 1"
  shows "\<exists>l r. py_split ''<=>'' d = [l, r] \<and> d = l @ ''<=>'' @ r \<and>
               \<not> contains ''<=>'' l \<and> \<not> contains ''<=>'' r"
proof -
  have "length (py_split ''<=>'' d) = 2" using assms by (simp add: length_split_sep)
  then obtain l r where lr: "py_split ''<=>'' d = [l, r]"
    by (cases "py_split ''<=>'' d"; cases "tl (py_split ''<=>'' d)") auto
  have "py_join ''<=>'' (py_split ''<=>'' d) = d" by (rule py_join_split)
  then have "d = l @ ''<=>'' @ r" using lr by simp
  moreover have "occurrences ''<=>'' l = 0" "occurrences ''<=>'' r = 0"
    using occurrences_piece [of "''<=>''" _ d] lr by simp_all
  ultimately show ?thesis using lr by (auto simp: contains_def)
qed

lemma split_sides_malformed:
  assumes "occurrences ''<=>'' d \<noteq> 1"
  shows "split_sides d = Inl ValueError"
proof -
  have "length (py_split ''<=>'' d) \<noteq> 2" using assms by (simp add: length_split_sep)
  then show ?thesis
    by (auto simp: split_sides_def split: list.splits)
qed

section \<open>The parse of a well-formed description\<close>

lemma add_edges_inner:
  "foldl (\<lambda>G p. G((a, strip p) \<mapsto> rid)) G ps e =
     (if e \<in> {a} \<times> strip ` set ps then Some rid else G e)"
  by (induction ps arbitrary: G) auto

lemma add_edges_apply:
  "add_edges G rid ss ps e =
     (if e \<in> strip ` set ss \<times> strip ` set ps then Some rid else G e)"
  unfolding add_edges_def
  by (induction ss arbitrary: G) (auto simp: add_edges_inner)

lemma build_single:
  "split_sides d = Inr (ss, ps) \<Longrightarrow>
   build_reaction_network [(rid, d)] = (add_edges Map.empty rid ss ps, [])"
  by (simp add: build_reaction_network_def)

text \<open>
  C7. A description with exactly one \<open><=>\<close> is the substrate side, the separator and the
  product side, and neither side contains the separator; each side is the \<open>" + "\<close>-join of
  its terms, none of which contains \<open>" + "\<close>; the parse is the list of the stripped terms of
  each side, in order and with duplicates, in all three places that parse (the network, the
  species list, the right-hand side); a stripped term is the term without the whitespace
  around it. \<open>"A + B <=> C"\<close> parses to \<open>[A, B]\<close> and \<open>[C]\<close>.
\<close>

theorem parse_well_formed:
  "(occurrences ''<=>'' d = 1 \<longrightarrow>
      (\<exists>l r. d = l @ ''<=>'' @ r \<and> \<not> contains ''<=>'' l \<and> \<not> contains ''<=>'' r \<and>
         py_join '' + '' (py_split '' + '' l) = l \<and>
         py_join '' + '' (py_split '' + '' r) = r \<and>
         (\<forall>t \<in> set (py_split '' + '' l) \<union> set (py_split '' + '' r). \<not> contains '' + '' t) \<and>
         parse_reaction d =
           Inr (map strip (py_split '' + '' l), map strip (py_split '' + '' r)) \<and>
         species_terms [(rid, d)] =
           Inr (map strip (py_split '' + '' l) @ map strip (py_split '' + '' r)) \<and>
         dom (fst (build_reaction_network [(rid, d)])) =
           set (map strip (py_split '' + '' l)) \<times> set (map strip (py_split '' + '' r)))) \<and>
   (\<exists>u v. t = u @ strip t @ v \<and> list_all is_space u \<and> list_all is_space v) \<and>
   (strip t \<noteq> [] \<longrightarrow> \<not> is_space (hd (strip t)) \<and> \<not> is_space (last (strip t))) \<and>
   parse_reaction ''A + B <=> C'' = Inr ([''A'', ''B''], [''C''])"
proof -
  have ex: "parse_reaction ''A + B <=> C'' = Inr ([''A'', ''B''], [''C''])"
    by (simp add: parse_reaction_def split_sides_def strip_def is_space_def)
  have main: "\<exists>l r. d = l @ ''<=>'' @ r \<and> \<not> contains ''<=>'' l \<and> \<not> contains ''<=>'' r \<and>
         py_join '' + '' (py_split '' + '' l) = l \<and>
         py_join '' + '' (py_split '' + '' r) = r \<and>
         (\<forall>t \<in> set (py_split '' + '' l) \<union> set (py_split '' + '' r). \<not> contains '' + '' t) \<and>
         parse_reaction d =
           Inr (map strip (py_split '' + '' l), map strip (py_split '' + '' r)) \<and>
         species_terms [(rid, d)] =
           Inr (map strip (py_split '' + '' l) @ map strip (py_split '' + '' r)) \<and>
         dom (fst (build_reaction_network [(rid, d)])) =
           set (map strip (py_split '' + '' l)) \<times> set (map strip (py_split '' + '' r))"
    if one: "occurrences ''<=>'' d = 1"
  proof -
    from one_separator_split [OF one] obtain l r where
      lr: "py_split ''<=>'' d = [l, r]" and d: "d = l @ ''<=>'' @ r"
      and nl: "\<not> contains ''<=>'' l" and nr: "\<not> contains ''<=>'' r" by blast
    have sides: "split_sides d = Inr (py_split '' + '' l, py_split '' + '' r)"
      using lr by (simp add: split_sides_def)
    have pieces: "\<forall>t \<in> set (py_split '' + '' l) \<union> set (py_split '' + '' r). \<not> contains '' + '' t"
      using occurrences_piece [of "'' + ''"] by (auto simp: contains_def)
    have parse: "parse_reaction d =
           Inr (map strip (py_split '' + '' l), map strip (py_split '' + '' r))"
      using sides by (simp add: parse_reaction_def)
    have terms: "species_terms [(rid, d)] =
           Inr (map strip (py_split '' + '' l) @ map strip (py_split '' + '' r))"
      using lr by simp
    have "dom (fst (build_reaction_network [(rid, d)])) =
           set (map strip (py_split '' + '' l)) \<times> set (map strip (py_split '' + '' r))"
      unfolding build_single [OF sides]
      by (auto simp: add_edges_apply dom_def split: if_splits)
    with d nl nr pieces parse terms show ?thesis
      using py_join_split by blast
  qed
  show ?thesis
    using ex main strip_decomposition [of t] strip_ends [of t] by blast
qed

theorem parse_well_formed_witness:
  "occurrences ''<=>'' ''A + B <=> C'' = 1 \<and>
   parse_reaction ''A + B <=> C'' = Inr ([''A'', ''B''], [''C'']) \<and>
   strip '' B '' = ''B''"
  using parse_well_formed [of "''A + B <=> C''" "''R1''" "'' B ''"]
  by (simp add: strip_def is_space_def)

section \<open>The species registry\<close>

lemma first_seen_set: "set (first_seen reg ns) = set reg \<union> set ns"
  by (induction reg ns rule: first_seen.induct) auto

lemma first_seen_distinct: "distinct reg \<Longrightarrow> distinct (first_seen reg ns)"
  by (induction reg ns rule: first_seen.induct) auto

lemma py_index_less: "x \<in> set xs \<Longrightarrow> py_index xs x < length xs"
  by (induction xs) auto

lemma py_index_nth: "x \<in> set xs \<Longrightarrow> xs ! py_index xs x = x"
  by (induction xs) auto

lemma py_index_of_nth: "distinct xs \<Longrightarrow> i < length xs \<Longrightarrow> py_index xs (xs ! i) = i"
proof (induction xs arbitrary: i)
  case Nil
  then show ?case by simp
next
  case (Cons x xs)
  then show ?case by (cases i) auto
qed

lemma species_terms_well_formed:
  "\<forall>r \<in> set rs. occurrences ''<=>'' (snd r) = 1 \<Longrightarrow>
   species_terms rs = Inr (concat (map reaction_terms rs))"
proof (induction rs)
  case Nil
  then show ?case by simp
next
  case (Cons r rs)
  obtain rid d where r: "r = (rid, d)" by (cases r)
  from Cons.prems r have "occurrences ''<=>'' d = 1" by simp
  from one_separator_split [OF this] obtain l r' where
    lr: "py_split ''<=>'' d = [l, r']" by blast
  then have "reaction_terms (rid, d) = map strip (py_split '' + '' l) @ map strip (py_split '' + '' r')"
    by (simp add: reaction_terms_def parse_reaction_def split_sides_def)
  then show ?case using Cons r lr by simp
qed

lemma py_index_inj:
  "a \<in> set xs \<Longrightarrow> b \<in> set xs \<Longrightarrow> py_index xs a = py_index xs b \<Longrightarrow> a = b"
  by (metis py_index_nth)

text \<open>
  C2, as the code has it. When every description has exactly one separator and the set
  listing is a listing of the set, the species list holds every trimmed substrate and
  product name once: it is a permutation of the first-seen registry, and a name's index is
  its position in the list. The order is the one of the set listing.
\<close>

theorem species_registry:
  "(\<forall>r \<in> set reactions. occurrences ''<=>'' (snd r) = 1) \<and>
   set_listing (concat (map reaction_terms reactions))
     (list_set (concat (map reaction_terms reactions))) \<longrightarrow>
   (\<exists>species. parse_species list_set reactions = Inr species \<and>
      distinct species \<and>
      set species = set (concat (map reaction_terms reactions)) \<and>
      mset species = mset (first_seen_registry reactions) \<and>
      (\<forall>n \<in> set species. py_index species n < length species \<and> species ! py_index species n = n) \<and>
      (\<forall>i < length species. py_index species (species ! i) = i))"
proof (intro impI, elim conjE)
  let ?names = "concat (map reaction_terms reactions)"
  assume wf: "\<forall>r \<in> set reactions. occurrences ''<=>'' (snd r) = 1"
    and listing: "set_listing ?names (list_set ?names)"
  have p: "parse_species list_set reactions = Inr (list_set ?names)"
    by (simp add: parse_species_def species_terms_well_formed [OF wf])
  have d: "distinct (list_set ?names)" and s: "set (list_set ?names) = set ?names"
    using listing by (simp_all add: set_listing_def)
  have "distinct (first_seen_registry reactions)"
    by (simp add: first_seen_registry_def first_seen_distinct)
  moreover have "set (first_seen_registry reactions) = set ?names"
    by (simp add: first_seen_registry_def first_seen_set)
  ultimately have m: "mset (list_set ?names) = mset (first_seen_registry reactions)"
    using d s by (metis set_eq_iff_mset_eq_distinct)
  show "\<exists>species. parse_species list_set reactions = Inr species \<and>
      distinct species \<and>
      set species = set ?names \<and>
      mset species = mset (first_seen_registry reactions) \<and>
      (\<forall>n \<in> set species. py_index species n < length species \<and> species ! py_index species n = n) \<and>
      (\<forall>i < length species. py_index species (species ! i) = i)"
    using p d s m py_index_less py_index_nth py_index_of_nth by blast
qed

theorem species_registry_witness:
  "occurrences ''<=>'' ''B + A <=> C'' = 1 \<and>
   set_listing [''B'', ''A'', ''C''] (rev (remdups [''B'', ''A'', ''C''])) \<and>
   parse_species (\<lambda>names. rev (remdups names)) [(''R1'', ''B + A <=> C'')]
     = Inr [''C'', ''A'', ''B''] \<and>
   first_seen_registry [(''R1'', ''B + A <=> C'')] = [''B'', ''A'', ''C'']"
  using species_registry [of "[(''R1'', ''B + A <=> C'')]" "\<lambda>names. rev (remdups names)"]
  by (auto simp: set_listing_def parse_species_def first_seen_registry_def reaction_terms_def
      parse_reaction_def split_sides_def strip_def is_space_def)

text \<open>
  C2 as stated fails: for the single reaction \<open>"B <=> A"\<close> the first-seen registry is
  \<open>[B, A]\<close>, and the listing \<open>[A, B]\<close> of the set \<open>{B, A}\<close> gives the species list \<open>[A, B]\<close>.
\<close>

theorem first_seen_order_counterexample:
  "set_listing [''B'', ''A''] (rev (remdups [''B'', ''A''])) \<and>
   species_terms [(''R1'', ''B <=> A'')] = Inr [''B'', ''A''] \<and>
   parse_species (\<lambda>names. rev (remdups names)) [(''R1'', ''B <=> A'')] = Inr [''A'', ''B''] \<and>
   first_seen_registry [(''R1'', ''B <=> A'')] = [''B'', ''A'']"
  by (auto simp: set_listing_def parse_species_def first_seen_registry_def reaction_terms_def
      parse_reaction_def split_sides_def strip_def is_space_def)

section \<open>Malformed descriptions\<close>

lemma build_loop_diagnostics:
  "snd (build_loop (G, out) rs) =
     out @ map (\<lambda>r. ''Skipping malformed reaction description: '' @ snd r)
             (filter (\<lambda>r. occurrences ''<=>'' (snd r) \<noteq> 1) rs)"
proof (induction rs arbitrary: G out)
  case Nil
  then show ?case by simp
next
  case (Cons r rs)
  obtain rid d where r: "r = (rid, d)" by (cases r)
  show ?case
  proof (cases "occurrences ''<=>'' d = 1")
    case True
    from one_separator_split [OF True] obtain l r' where "py_split ''<=>'' d = [l, r']" by blast
    then have "split_sides d = Inr (py_split '' + '' l, py_split '' + '' r')"
      by (simp add: split_sides_def)
    then show ?thesis using Cons True r by simp
  next
    case False
    then show ?thesis using Cons r split_sides_malformed [OF False] by simp
  qed
qed

text \<open>
  C3 at a description without separator: the network stage prints its diagnostic and adds
  nothing, and the simulation raises IndexError while it collects the species. At a
  description with two separators the species of the first two pieces are registered.
\<close>

theorem missing_separator_raises:
  "fst (simulate_reaction_dynamics list_set draw solve_ivp
          [(''R00002'', ''malformed_line'')] initial_concentrations time_span h)
     = Inl IndexError \<and>
   build_reaction_network [(''R00002'', ''malformed_line'')]
     = (Map.empty, [''Skipping malformed reaction description: malformed_line'']) \<and>
   parse_species list_set [(''R00003'', ''A <=> B <=> C'')] = Inr (list_set [''A'', ''B''])"
  by (simp add: simulate_reaction_dynamics_def parse_species_def build_reaction_network_def
      split_sides_def strip_def is_space_def)

section \<open>The right-hand side\<close>

lemma subtract_at_length: "length (subtract_at y v d idxs) = length d"
  unfolding subtract_at_def by (induction idxs arbitrary: d) auto

lemma add_at_length: "length (add_at y v d idxs) = length d"
  unfolding add_at_def by (induction idxs arbitrary: d) auto

lemma subtract_at_nth:
  "length d = length y \<Longrightarrow> i < length y \<Longrightarrow>
   subtract_at y v d idxs ! i = d ! i - real (count_list idxs i) * v"
  unfolding subtract_at_def
proof (induction idxs arbitrary: d)
  case Nil
  then show ?case by simp
next
  case (Cons idx idxs)
  then show ?case by (auto simp: algebra_simps nth_list_update)
qed

lemma add_at_nth:
  "length d = length y \<Longrightarrow> i < length y \<Longrightarrow>
   add_at y v d idxs ! i = d ! i + real (count_list idxs i) * v"
  unfolding add_at_def
proof (induction idxs arbitrary: d)
  case Nil
  then show ?case by simp
next
  case (Cons idx idxs)
  then show ?case by (auto simp: algebra_simps nth_list_update)
qed

lemma apply_reaction_length: "length (apply_reaction k S P y d) = length d"
  by (simp add: apply_reaction_def Let_def add_at_length subtract_at_length)

lemma apply_reaction_nth:
  "length d = length y \<Longrightarrow> i < length y \<Longrightarrow>
   apply_reaction k S P y d ! i =
     d ! i + real (count_list P i) * (flux y S - k * flux y P)
           - real (count_list S i) * (flux y S - k * flux y P)"
  by (simp add: apply_reaction_def Let_def add_at_nth subtract_at_nth subtract_at_length)

lemma subtract_at_filter:
  "subtract_at y v d (filter (\<lambda>i. i < length y) idxs) = subtract_at y v d idxs"
  unfolding subtract_at_def by (induction idxs arbitrary: d) auto

lemma add_at_filter:
  "add_at y v d (filter (\<lambda>i. i < length y) idxs) = add_at y v d idxs"
  unfolding add_at_def by (induction idxs arbitrary: d) auto

lemma flux_filter: "flux y (filter (\<lambda>i. i < length y) idxs) = flux y idxs"
  by (simp add: flux_def)

lemma flux_in_range: "\<forall>i \<in> set idxs. i < length y \<Longrightarrow> flux y idxs = prod_list (map (\<lambda>i. y ! i) idxs)"
  by (simp add: flux_def)

lemma indices_of_less: "idx \<in> set (indices_of species terms) \<Longrightarrow> idx < length species"
  by (auto simp: indices_of_def py_index_less)

lemma kinetics_loop_total:
  "fst ` set rs \<subseteq> dom K \<Longrightarrow> length d = length y \<Longrightarrow>
   \<exists>dy out'. kinetics_loop species K y (d, out) rs = Inr (dy, out') \<and> length dy = length y"
proof (induction rs arbitrary: d out)
  case Nil
  then show ?case by simp
next
  case (Cons r rs)
  obtain rid desc where r: "r = (rid, desc)" by (cases r)
  from Cons.prems r obtain k where k: "K rid = Some k" by auto
  from Cons.prems have rest: "fst ` set rs \<subseteq> dom K" by simp
  show ?case
  proof (cases "split_sides desc")
    case (Inl e)
    then show ?thesis using Cons.IH [OF rest Cons.prems(2)] r by simp
  next
    case (Inr sp)
    obtain ss ps where sp: "sp = (ss, ps)" by (cases sp)
    have "length (apply_reaction k (indices_of species ss) (indices_of species ps) y d) = length y"
      using Cons.prems(2) by (simp add: apply_reaction_length)
    from Cons.IH [OF rest this] show ?thesis using r Inr sp k by simp
  qed
qed

lemma kinetics_loop_closed_form:
  "fst ` set rs \<subseteq> dom K \<Longrightarrow> length d = length y \<Longrightarrow> length species \<le> length y \<Longrightarrow>
   \<exists>dy out'. kinetics_loop species K y (d, out) rs = Inr (dy, out') \<and> length dy = length y \<and>
     (\<forall>i<length y. dy ! i = d ! i + (\<Sum>r\<leftarrow>rs. reaction_rate species K y i r))"
proof (induction rs arbitrary: d out)
  case Nil
  then show ?case by simp
next
  case (Cons r rs)
  obtain rid desc where r: "r = (rid, desc)" by (cases r)
  from Cons.prems r obtain k where k: "K rid = Some k" by auto
  from Cons.prems have rest: "fst ` set rs \<subseteq> dom K" by simp
  show ?case
  proof (cases "split_sides desc")
    case (Inl e)
    then have "reaction_rate species K y i r = 0" for i
      by (simp add: reaction_rate_def r)
    then show ?thesis using Cons.IH [OF rest Cons.prems(2,3)] r Inl by simp
  next
    case (Inr sp)
    obtain ss ps where sp: "sp = (ss, ps)" by (cases sp)
    let ?S = "indices_of species ss" and ?P = "indices_of species ps"
    let ?d = "apply_reaction k ?S ?P y d"
    have len: "length ?d = length y"
      using Cons.prems(2) by (simp add: apply_reaction_length)
    have fS: "flux y ?S = prod_list (map (\<lambda>i. y ! i) ?S)"
      using Cons.prems(3) indices_of_less [of _ species ss] by (intro flux_in_range) fastforce
    have fP: "flux y ?P = prod_list (map (\<lambda>i. y ! i) ?P)"
      using Cons.prems(3) indices_of_less [of _ species ps] by (intro flux_in_range) fastforce
    have step: "?d ! i = d ! i + reaction_rate species K y i r" if "i < length y" for i
      using that Cons.prems(2) fS fP
      by (simp add: apply_reaction_nth reaction_rate_def r Inr sp k net_flux_def Let_def)
    from Cons.IH [OF rest len Cons.prems(3), of out] obtain dy out' where
      res: "kinetics_loop species K y (?d, out) rs = Inr (dy, out')" and l: "length dy = length y"
      and v: "\<forall>i<length y. dy ! i = ?d ! i + (\<Sum>r\<leftarrow>rs. reaction_rate species K y i r)"
      by blast
    have "kinetics_loop species K y (d, out) (r # rs) = Inr (dy, out')"
      using res r Inr sp k by simp
    moreover have "\<forall>i<length y. dy ! i = d ! i + (\<Sum>r\<leftarrow>r # rs. reaction_rate species K y i r)"
      using v step by simp
    ultimately show ?thesis using l by blast
  qed
qed

lemma equilibrium_constants_fold_dom:
  "length idxs = length rs \<Longrightarrow>
   dom (foldl (\<lambda>m (i, reaction). m(fst reaction \<mapsto> draw i)) m (zip idxs rs)) = dom m \<union> fst ` set rs"
  by (induction idxs rs arbitrary: m rule: list_induct2) auto

lemma equilibrium_constants_dom: "dom (equilibrium_constants draw reactions) = fst ` set reactions"
  by (simp add: equilibrium_constants_def equilibrium_constants_fold_dom)

text \<open>
  C1. When every reaction has its constant and the state vector has an entry for every
  species, the right-hand side returns a vector of the length of \<open>y\<close> whose entry \<open>i\<close> is the
  sum over all reactions of the reaction's rate at \<open>i\<close>: the net flux (forward product minus
  \<open>k\<close> times reverse product), once per occurrence of \<open>i\<close> among the products, minus once
  per occurrence among the substrates. For \<open>"A <=> B"\<close> with \<open>k = 2\<close>, the registry \<open>[A, B]\<close>
  and \<open>y = [1, 0]\<close> the result is \<open>[-1, 1]\<close>.
\<close>

theorem derivative_closed_form:
  "(fst ` set reactions \<subseteq> dom K \<and> length species \<le> length y \<longrightarrow>
      (\<exists>dydt out. reaction_kinetics species K reactions t y = Inr (dydt, out) \<and>
         length dydt = length y \<and>
         (\<forall>i<length y. dydt ! i = (\<Sum>r\<leftarrow>reactions. reaction_rate species K y i r)))) \<and>
   reaction_kinetics [''A'', ''B''] [''R'' \<mapsto> 2] [(''R'', ''A <=> B'')] t [1, 0]
     = Inr ([- 1, 1], [])"
proof -
  have ex: "reaction_kinetics [''A'', ''B''] [''R'' \<mapsto> 2] [(''R'', ''A <=> B'')] t [1, 0]
     = Inr ([- 1, 1], [])"
    by (simp add: reaction_kinetics_def split_sides_def indices_of_def strip_def is_space_def
        apply_reaction_def flux_def subtract_at_def add_at_def)
  have "\<exists>dydt out. reaction_kinetics species K reactions t y = Inr (dydt, out) \<and>
         length dydt = length y \<and>
         (\<forall>i<length y. dydt ! i = (\<Sum>r\<leftarrow>reactions. reaction_rate species K y i r))"
    if a: "fst ` set reactions \<subseteq> dom K" and b: "length species \<le> length y"
    using kinetics_loop_closed_form [OF a _ b, of "replicate (length y) 0" "[]"]
    by (auto simp: reaction_kinetics_def)
  with ex show ?thesis by blast
qed

theorem derivative_closed_form_witness:
  "fst ` set [(''R1'', ''A + A <=> B''), (''R2'', ''no separator'')] \<subseteq> dom [''R1'' \<mapsto> (2::real), ''R2'' \<mapsto> 3] \<and>
   length [''A'', ''B''] \<le> length [3, 1 :: real] \<and>
   reaction_kinetics [''A'', ''B''] [''R1'' \<mapsto> 2, ''R2'' \<mapsto> 3]
       [(''R1'', ''A + A <=> B''), (''R2'', ''no separator'')] 0 [3, 1]
     = Inr ([- 14, 7], [''Skipping malformed reaction: no separator'']) \<and>
   (\<Sum>r\<leftarrow>[(''R1'', ''A + A <=> B''), (''R2'', ''no separator'')].
       reaction_rate [''A'', ''B''] [''R1'' \<mapsto> 2, ''R2'' \<mapsto> 3] [3, 1] 0 r) = - 14"
  using derivative_closed_form [of "[(''R1'', ''A + A <=> B''), (''R2'', ''no separator'')]"
      "[''R1'' \<mapsto> 2, ''R2'' \<mapsto> 3]" "[''A'', ''B'']" "[3, 1]" 0]
  by (simp add: reaction_kinetics_def split_sides_def indices_of_def strip_def is_space_def
        apply_reaction_def flux_def subtract_at_def add_at_def reaction_rate_def net_flux_def)

text \<open>
  C6. For a single reaction with one substrate and one product, different species with
  indices \<open>s\<close> and \<open>p\<close> inside the state vector, the derivative satisfies
  \<open>dy[s] + dy[p] = 0\<close>.
\<close>

theorem pair_conservation:
  "split_sides description = Inr ([a], [b]) \<and> strip a \<in> set species \<and> strip b \<in> set species \<and>
   strip a \<noteq> strip b \<and> K reaction_id = Some k \<and>
   py_index species (strip a) < length y \<and> py_index species (strip b) < length y \<longrightarrow>
   (\<exists>dydt out. reaction_kinetics species K [(reaction_id, description)] t y = Inr (dydt, out) \<and>
      length dydt = length y \<and>
      py_index species (strip a) \<noteq> py_index species (strip b) \<and>
      dydt ! py_index species (strip a) + dydt ! py_index species (strip b) = 0)"
proof (intro impI, elim conjE)
  let ?s = "py_index species (strip a)" and ?p = "py_index species (strip b)"
  let ?z = "replicate (length y) (0::real)"
  assume sides: "split_sides description = Inr ([a], [b])"
    and a: "strip a \<in> set species" and b: "strip b \<in> set species"
    and ab: "strip a \<noteq> strip b" and k: "K reaction_id = Some k"
    and s: "?s < length y" and p: "?p < length y"
  have ne: "?s \<noteq> ?p" using py_index_inj [OF a b] ab by blast
  have S: "indices_of species [a] = [?s]" and P: "indices_of species [b] = [?p]"
    using a b by (simp_all add: indices_of_def)
  have res: "reaction_kinetics species K [(reaction_id, description)] t y =
      Inr (apply_reaction k [?s] [?p] y ?z, [])"
    by (simp add: reaction_kinetics_def sides k S P)
  have "apply_reaction k [?s] [?p] y ?z ! ?s = - (flux y [?s] - k * flux y [?p])"
    using s ne by (simp add: apply_reaction_nth)
  moreover have "apply_reaction k [?s] [?p] y ?z ! ?p = flux y [?s] - k * flux y [?p]"
    using p ne by (simp add: apply_reaction_nth)
  ultimately show "\<exists>dydt out. reaction_kinetics species K [(reaction_id, description)] t y = Inr (dydt, out) \<and>
      length dydt = length y \<and> ?s \<noteq> ?p \<and> dydt ! ?s + dydt ! ?p = 0"
    using res ne by (simp add: apply_reaction_length)
qed

theorem pair_conservation_witness:
  "split_sides ''A <=> B'' = Inr ([''A ''], ['' B'']) \<and> strip ''A '' = ''A'' \<and> strip '' B'' = ''B'' \<and>
   reaction_kinetics [''A'', ''B''] [''R'' \<mapsto> 2] [(''R'', ''A <=> B'')] 0 [5, 1]
     = Inr ([- 3, 3], []) \<and> (- 3 :: real) + 3 = 0"
  using pair_conservation [of "''A <=> B''" "''A ''" "'' B''" "[''A'', ''B'']" "[''R'' \<mapsto> 2]" "''R''" 2 "[5, 1]" 0]
  by (simp add: reaction_kinetics_def split_sides_def indices_of_def strip_def is_space_def
        apply_reaction_def flux_def subtract_at_def add_at_def)

text \<open>
  C8. An index at or beyond \<open>len(y)\<close> changes nothing: one reaction's update is the update
  with such indices removed from both index lists. The right-hand side of the simulation
  never fails and returns a vector of the length of \<open>y\<close>. When \<open>y\<close> has one entry per
  species, every index the right-hand side computes is below \<open>len(y)\<close>.
\<close>

theorem out_of_range_indices_skipped:
  "apply_reaction k S P y dydt =
     apply_reaction k (filter (\<lambda>idx. idx < length y) S) (filter (\<lambda>idx. idx < length y) P) y dydt \<and>
   (\<exists>dy out. reaction_kinetics species (equilibrium_constants draw reactions) reactions t y
        = Inr (dy, out) \<and> length dy = length y) \<and>
   (length y = length species \<longrightarrow>
      (\<forall>idx \<in> set (indices_of species terms). idx < length y))"
proof -
  have "apply_reaction k S P y dydt =
     apply_reaction k (filter (\<lambda>idx. idx < length y) S) (filter (\<lambda>idx. idx < length y) P) y dydt"
    by (simp add: apply_reaction_def flux_filter subtract_at_filter add_at_filter)
  moreover have "\<exists>dy out. reaction_kinetics species (equilibrium_constants draw reactions) reactions t y
        = Inr (dy, out) \<and> length dy = length y"
    using kinetics_loop_total [of reactions "equilibrium_constants draw reactions"
        "replicate (length y) 0" y species "[]"]
    by (simp add: reaction_kinetics_def equilibrium_constants_dom)
  moreover have "\<forall>idx \<in> set (indices_of species terms). idx < length y"
    if "length y = length species"
    using that indices_of_less [of _ species terms] by simp
  ultimately show ?thesis by blast
qed

theorem out_of_range_indices_skipped_witness:
  "indices_of [''A'', ''B''] ['' B''] = [1] \<and>
   reaction_kinetics [''A'', ''B''] (equilibrium_constants (\<lambda>i. 2) [(''R'', ''A <=> B'')])
       [(''R'', ''A <=> B'')] 0 [5] = Inr ([- 3], []) \<and>
   apply_reaction 2 [0] [1] [5] [0] = apply_reaction 2 [0] [] [5] [0] \<and>
   length [5, 1 :: real] = length [''A'', ''B'']"
  using out_of_range_indices_skipped [of 2 "[0]" "[1]" "[5]" "[0]" "[''A'', ''B'']" "\<lambda>i. 2"
      "[(''R'', ''A <=> B'')]" 0 "[''A'']"]
    out_of_range_indices_skipped [of 2 "[0]" "[1]" "[5, 1]" "[0, 0]" "[''A'', ''B'']" "\<lambda>i. 2"
      "[(''R'', ''A <=> B'')]" 0 "['' B'']"]
  by (simp add: reaction_kinetics_def equilibrium_constants_def split_sides_def indices_of_def
        strip_def is_space_def apply_reaction_def flux_def subtract_at_def add_at_def)

section \<open>The initial vector\<close>

lemma integrator_input_cases:
  "integrator_input h ic n =
     (if length (h ic) < n then h ic @ replicate (n - length (h ic)) 0 else take n (h ic))"
  by (simp add: integrator_input_def pad_initial_def)

lemma simulate_success:
  assumes "parse_species list_set reactions = Inr species"
  shows "simulate_reaction_dynamics list_set draw solve_ivp reactions ic time_span h =
     (case solve_ivp
             (reaction_kinetics species (equilibrium_constants draw reactions) reactions)
             time_span (integrator_input h ic (length species))
             (linspace (fst time_span) (snd time_span) 100) of
        Inl e \<Rightarrow> (Inl e, pad_initial h ic (length species))
      | Inr (t, y) \<Rightarrow> (Inr (t, y, species), pad_initial h ic (length species)))"
  using assms by (simp add: simulate_reaction_dynamics_def Let_def)

text \<open>
  C5. When the species list has \<open>N\<close> entries, the integrator receives a vector of length
  \<open>N\<close>: the caller's vector followed by zeros when that is shorter than \<open>N\<close>, and its first
  \<open>N\<close> entries otherwise. \<open>[0.5]\<close> with three species gives \<open>[0.5, 0, 0]\<close>.
\<close>

theorem integrator_vector_length:
  "(parse_species list_set reactions = Inr species \<longrightarrow>
      (\<exists>y0. fst (simulate_reaction_dynamics list_set draw (\<lambda>f span y0 t_eval. Inr (t_eval, [y0]))
                  reactions ic time_span h)
             = Inr (linspace (fst time_span) (snd time_span) 100, [y0], species) \<and>
            length y0 = length species \<and>
            (length (h ic) < length species \<longrightarrow>
               y0 = h ic @ replicate (length species - length (h ic)) 0) \<and>
            (length species \<le> length (h ic) \<longrightarrow> y0 = take (length species) (h ic)))) \<and>
   integrator_input (\<lambda>r. [1 / 2]) ic 3 = [1 / 2, 0, 0]"
proof -
  have ex: "integrator_input (\<lambda>r. [1 / 2]) ic 3 = [1 / 2, 0, 0]"
    by (simp add: integrator_input_cases numeral_3_eq_3)
  have "length (integrator_input h ic n) = n" for n
    by (simp add: integrator_input_cases)
  then show ?thesis
    using ex by (auto simp: simulate_success integrator_input_cases)
qed

theorem integrator_vector_length_witness:
  "parse_species remdups [(''R1'', ''A + B <=> C'')] = Inr [''A'', ''B'', ''C''] \<and>
   fst (simulate_reaction_dynamics remdups (\<lambda>i. 1) (\<lambda>f span y0 t_eval. Inr (t_eval, [y0]))
          [(''R1'', ''A + B <=> C'')] 0 (0, 10) (\<lambda>r. [1 / 2]))
     = Inr (linspace 0 10 100, [[1 / 2, 0, 0]], [''A'', ''B'', ''C'']) \<and>
   fst (simulate_reaction_dynamics remdups (\<lambda>i. 1) (\<lambda>f span y0 t_eval. Inr (t_eval, [y0]))
          [(''R1'', ''A + B <=> C'')] 0 (0, 10) (\<lambda>r. [1, 2, 3, 4, 5]))
     = Inr (linspace 0 10 100, [[1, 2, 3]], [''A'', ''B'', ''C''])"
proof -
  have p: "parse_species remdups [(''R1'', ''A + B <=> C'')] = Inr [''A'', ''B'', ''C'']"
    by (simp add: parse_species_def strip_def is_space_def)
  show ?thesis
    using p integrator_vector_length [of remdups "[(''R1'', ''A + B <=> C'')]" "[''A'', ''B'', ''C'']"
        "\<lambda>i. 1" 0 "(0, 10)" "\<lambda>r. [1 / 2]"]
      integrator_vector_length [of remdups "[(''R1'', ''A + B <=> C'')]" "[''A'', ''B'', ''C'']"
        "\<lambda>i. 1" 0 "(0, 10)" "\<lambda>r. [1, 2, 3, 4, 5]"]
    by (auto simp: numeral_3_eq_3)
qed

text \<open>
  C9. After the call the caller's list object holds the padded vector, of the length of the
  species list, when it was shorter than that; otherwise it is unchanged. No other object
  changes. This holds whether or not the integrator fails.
\<close>

theorem caller_list_extended:
  "parse_species list_set reactions = Inr species \<longrightarrow>
     (let h' = snd (simulate_reaction_dynamics list_set draw solve_ivp reactions ic time_span h)
      in (length (h ic) < length species \<longrightarrow>
            h' ic = h ic @ replicate (length species - length (h ic)) 0 \<and>
            length (h' ic) = length species) \<and>
         (length species \<le> length (h ic) \<longrightarrow> h' ic = h ic) \<and>
         (\<forall>r. r \<noteq> ic \<longrightarrow> h' r = h r))"
  by (auto simp: simulate_success pad_initial_def Let_def split: sum.splits)

theorem caller_list_extended_witness:
  "parse_species remdups [(''R1'', ''A + B <=> C'')] = Inr [''A'', ''B'', ''C''] \<and>
   snd (simulate_reaction_dynamics remdups (\<lambda>i. 1) (\<lambda>f span y0 t_eval. Inl SolverError)
          [(''R1'', ''A + B <=> C'')] 0 (0, 10) (\<lambda>r. if r = 0 then [1 / 2] else [7])) 0
     = [1 / 2, 0, 0] \<and>
   snd (simulate_reaction_dynamics remdups (\<lambda>i. 1) (\<lambda>f span y0 t_eval. Inl SolverError)
          [(''R1'', ''A + B <=> C'')] 0 (0, 10) (\<lambda>r. if r = 0 then [1 / 2] else [7])) 1
     = [7] \<and>
   snd (simulate_reaction_dynamics remdups (\<lambda>i. 1) (\<lambda>f span y0 t_eval. Inl SolverError)
          [(''R1'', ''A + B <=> C'')] 0 (0, 10) (\<lambda>r. [1, 2, 3, 4])) 0
     = [1, 2, 3, 4]"
proof -
  have p: "parse_species remdups [(''R1'', ''A + B <=> C'')] = Inr [''A'', ''B'', ''C'']"
    by (simp add: parse_species_def strip_def is_space_def)
  show ?thesis
    using p caller_list_extended [of remdups "[(''R1'', ''A + B <=> C'')]" "[''A'', ''B'', ''C'']"
        "\<lambda>i. 1" "\<lambda>f span y0 t_eval. Inl SolverError" 0 "(0, 10)" "\<lambda>r. if r = 0 then [1 / 2] else [7]"]
      caller_list_extended [of remdups "[(''R1'', ''A + B <=> C'')]" "[''A'', ''B'', ''C'']"
        "\<lambda>i. 1" "\<lambda>f span y0 t_eval. Inl SolverError" 0 "(0, 10)" "\<lambda>r. [1, 2, 3, 4]"]
    by (auto simp: numeral_3_eq_3 Let_def)
qed

section \<open>The change summary\<close>

lemma classify_cases:
  "classify c =
     (if \<bar>c\<bar> \<le> 0 then None
      else if \<bar>c\<bar> \<le> 1 / 10 then Some Minor
      else if \<bar>c\<bar> \<le> 1 then Some Moderate
      else Some Major)"
  by (simp add: classify_def pd_cut_def searchsorted_left_def Let_def)

lemma analyze_changes_row:
  assumes "analyze_changes y species = Inr rows" and "i < length rows"
  shows "i < length y \<and> Magnitude (rows ! i) = classify (last (y ! i) - hd (y ! i))
         \<and> Change (rows ! i) = last (y ! i) - hd (y ! i)"
  using assms by (auto simp: analyze_changes_def split: if_splits)




text \<open>
  C10. A row whose absolute change is exactly 0 has no magnitude label, and every row with a
  strictly positive absolute change has one of the three labels.
\<close>

theorem zero_change_unlabelled:
  "analyze_changes y species = Inr rows \<and> i < length rows \<longrightarrow>
     (\<bar>Change (rows ! i)\<bar> = 0 \<longrightarrow> Magnitude (rows ! i) = None) \<and>
     (0 < \<bar>Change (rows ! i)\<bar> \<longrightarrow>
        (\<exists>m. Magnitude (rows ! i) = Some m \<and> m \<in> {Minor, Moderate, Major}))"
  using analyze_changes_row [of y species rows i] by (auto simp: classify_cases)

theorem zero_change_unlabelled_witness:
  "Magnitude (projr (analyze_changes [[1, 1], [1, 2]] [''A'', ''B'']) ! 0) = None \<and>
   (\<exists>m. Magnitude (projr (analyze_changes [[1, 1], [1, 2]] [''A'', ''B'']) ! 1) = Some m)"
  using zero_change_unlabelled [of "[[1, 1], [1, 2]]" "[''A'', ''B'']"
      "projr (analyze_changes [[1, 1], [1, 2]] [''A'', ''B''])" 0]
    zero_change_unlabelled [of "[[1, 1], [1, 2]]" "[''A'', ''B'']"
      "projr (analyze_changes [[1, 1], [1, 2]] [''A'', ''B''])" 1]
  by (auto simp: analyze_changes_def)

end
